theory Spec2Isabelle
  imports Complex_Main "HOL-Library.Multiset" "HOL-Library.Sublist" "HOL-Library.Log_Nat"
begin

section \<open>The score ledger of the detection engine (engine.js, class OSScoreSystem)\<close>

text \<open>
  The ledger is the JavaScript object \<^verbatim>\<open>this.scores\<close>. Its keys are enumerated in insertion
  order by \<^verbatim>\<open>Object.values\<close> and \<^verbatim>\<open>Object.entries\<close>, and that order decides ties, so the object
  is an association list. Every weight the engine passes to \<^verbatim>\<open>addScore\<close> is an integer literal
  (or \<^verbatim>\<open>desktopAPIs * 2\<close>), and JavaScript numbers add, compare and test such integers for
  equality exactly, so scores are \<^typ>\<open>int\<close>. The one place where the source leaves the
  integers is line 250 of \<^verbatim>\<open>getTopOS\<close>, which divides and multiplies in double precision; both
  operations are modelled with the rounding of IEEE 754 binary64.
\<close>

type_synonym ledger = "(string \<times> int) list"

datatype js_error = TypeError | ReferenceError

record top_result =
  os :: string
  confidence :: int

text \<open>The six keys of the constructor, in the order the object literal declares them.\<close>

definition hypotheses :: "string list" where
  "hypotheses = [''macOS'', ''Windows'', ''Linux'', ''iOS'', ''iPadOS'', ''Android'']"

text \<open>A fresh ledger over a list of keys, every score 0.\<close>

definition zero_ledger :: "string list \<Rightarrow> ledger" where
  "zero_ledger names = map (\<lambda>k. (k, 0)) names"

definition OSScoreSystem_constructor :: ledger where
  "OSScoreSystem_constructor = zero_ledger hypotheses"

definition Object_values :: "ledger \<Rightarrow> int list" where
  "Object_values scores = map snd scores"

definition hasOwnProperty :: "ledger \<Rightarrow> string \<Rightarrow> bool" where
  "hasOwnProperty scores k = (k \<in> set (map fst scores))"

text \<open>\<^verbatim>\<open>this.scores[target] += weight\<close> on a key the object has: the entry keeps its place.\<close>

definition add_to :: "ledger \<Rightarrow> string \<Rightarrow> int \<Rightarrow> ledger" where
  "add_to scores target weight =
     map (\<lambda>(k, v). if k = target then (k, v + weight) else (k, v)) scores"

text \<open>
  \<^verbatim>\<open>addScore(targets, weight)\<close>: \<^verbatim>\<open>targets.forEach\<close> visits the array from left to right, once for
  every occurrence of a name; a name that is not a key of the object is skipped. Nothing is
  checked about \<^verbatim>\<open>weight\<close>, and nothing is thrown.
\<close>

definition addScore :: "ledger \<Rightarrow> string list \<Rightarrow> int \<Rightarrow> ledger" where
  "addScore scores targets weight =
     fold (\<lambda>target s. if hasOwnProperty s target then add_to s target weight else s)
       targets scores"

text \<open>\<^verbatim>\<open>Math.max(...values)\<close>: \<^verbatim>\<open>-Infinity\<close> (here \<^const>\<open>None\<close>) when there is no argument.\<close>

fun Math_max :: "int list \<Rightarrow> int option" where
  "Math_max [] = None"
| "Math_max (x # xs) = (case Math_max xs of None \<Rightarrow> Some x | Some m \<Rightarrow> Some (max x m))"

text \<open>\<^verbatim>\<open>Math.round\<close>: the nearest integer, a half rounded towards plus infinity. It is exact
  on the value it is given.\<close>

definition Math_round :: "rat \<Rightarrow> int" where
  "Math_round x = \<lfloor>x + 1 / 2\<rfloor>"

text \<open>The string the source returns when there is no evidence, as its UTF-8 bytes
  (the two characters U+672A U+77E5).\<close>

definition unknown_os :: string where
  "unknown_os = [CHR 0xE6, CHR 0x9C, CHR 0xAA, CHR 0xE7, CHR 0x9F, CHR 0xA5]"

text \<open>
  Double precision. A double is a rational number with a significand of 53 bits; the
  result of an arithmetic operation is the exact result rounded to the nearest double, a
  tie going to the even significand. For a positive \<open>x\<close> with \<open>2 powi e \<le> x < 2 powi (e + 1)\<close>
  the doubles around \<open>x\<close> are the multiples of \<open>2 powi (e - 52)\<close>. The exponent \<open>e\<close> is
  found from the bit lengths of numerator and denominator. (The range of the exponent
  and the subnormal numbers are left out: the quotient of two integers below \<open>2 ^ 53\<close> and
  its product with 100 are far from both ends.)
\<close>

definition round_half_even :: "rat \<Rightarrow> int" where
  "round_half_even x =
     (let n = \<lfloor>x\<rfloor>; r = x - of_int n
      in if r < 1 / 2 then n
         else if 1 / 2 < r then n + 1
         else if even n then n else n + 1)"

definition binade :: "rat \<Rightarrow> int" where
  "binade x =
     (let (p, q) = quotient_of x; e0 = bitlen p - bitlen q
      in if 2 powi e0 \<le> x then e0 else e0 - 1)"

definition double_of_pos :: "rat \<Rightarrow> rat" where
  "double_of_pos x =
     (let ulp = 2 powi (binade x - 52)
      in of_int (round_half_even (x / ulp)) * ulp)"

definition to_double :: "rat \<Rightarrow> rat" where
  "to_double x =
     (if x = 0 then 0
      else if 0 < x then double_of_pos x
      else - double_of_pos (- x))"

text \<open>The operators \<^verbatim>\<open>/\<close> and \<^verbatim>\<open>*\<close> on doubles (the divisor is not 0 where the source
  divides).\<close>

definition js_div :: "rat \<Rightarrow> rat \<Rightarrow> rat" where
  "js_div a b = to_double (a / b)"

definition js_mul :: "rat \<Rightarrow> rat \<Rightarrow> rat" where
  "js_mul a b = to_double (a * b)"

text \<open>Line 250 of the source: \<^verbatim>\<open>Math.round((maxScore / totalScore) * 100)\<close>.\<close>

definition confidence_formula :: "int \<Rightarrow> int \<Rightarrow> int" where
  "confidence_formula score totalScore =
     Math_round (js_mul (js_div (of_int score) (of_int totalScore)) 100)"

text \<open>
  \<^verbatim>\<open>getTopOS()\<close>. \<^verbatim>\<open>find\<close> returns \<^verbatim>\<open>undefined\<close> when no entry matches, and indexing that with
  \<^verbatim>\<open>[0]\<close> throws a TypeError: both are branches of the model.
\<close>

definition getTopOS :: "ledger \<Rightarrow> js_error + top_result" where
  "getTopOS scores =
     (let maxScore = Math_max (Object_values scores);
          totalScore = foldl (+) 0 (Object_values scores)
      in if maxScore = Some 0 \<or> totalScore = 0
         then Inr \<lparr>os = unknown_os, confidence = 0\<rparr>
         else (case maxScore of
                 None \<Rightarrow> Inl TypeError
               | Some m \<Rightarrow>
                   (case find (\<lambda>(_, score). score = m) scores of
                      None \<Rightarrow> Inl TypeError
                    | Some (topOS, _) \<Rightarrow>
                        Inr \<lparr>os = topOS, confidence = confidence_formula m totalScore\<rparr>)))"

text \<open>\<^verbatim>\<open>getAllScores()\<close>: a copy of the object.\<close>

definition getAllScores :: "ledger \<Rightarrow> ledger" where
  "getAllScores scores = scores"

text \<open>
  The engine applies observations by calling \<^verbatim>\<open>addScore\<close> once per fired signal, one call
  after the other; a list of (targets, weight) pairs applied from left to right is that
  sequence of calls.
\<close>

type_synonym observation = "string list \<times> int"

definition apply_observations :: "ledger \<Rightarrow> observation list \<Rightarrow> ledger" where
  "apply_observations scores obs =
     fold (\<lambda>(targets, weight) s. addScore s targets weight) obs scores"

text \<open>
  Modelled from the spec: \<^verbatim>\<open>confidenceOf(hypothesis)\<close> of section 4.1. The source has no
  per-hypothesis query (only \<^verbatim>\<open>getTopOS\<close>, for the maximal score); the spec's words are
  "round(100 * score(hypothesis) / sum(all scores)); guarded against division by zero
  (returns 0 when total is 0)". The spec's scores are real numbers, so the share is the
  exact quotient, rounded as \<^verbatim>\<open>Math.round\<close> rounds.
\<close>

definition confidenceOf :: "ledger \<Rightarrow> string \<Rightarrow> int" where
  "confidenceOf scores h =
     (let totalScore = foldl (+) 0 (Object_values scores)
      in if totalScore = 0 then 0
         else (case map_of scores h of
                 None \<Rightarrow> 0
               | Some score \<Rightarrow> Math_round ((of_int score / of_int totalScore) * 100)))"

section \<open>String helpers of the probes (webgl.js, nfc.js)\<close>

text \<open>\<^verbatim>\<open>toLowerCase\<close> on the ASCII letters, \<^verbatim>\<open>String.includes\<close> as the contiguous-substring test.\<close>

definition toLowerCase :: "string \<Rightarrow> string" where
  "toLowerCase s =
     map (\<lambda>c. let n = (of_char c :: nat) in if 65 \<le> n \<and> n \<le> 90 then char_of (n + 32) else c) s"

definition includes_str :: "string \<Rightarrow> string \<Rightarrow> bool" where
  "includes_str s sub = sublist sub s"

record webgl_info =
  vendor :: string
  renderer :: string

definition containsApple :: "webgl_info option \<Rightarrow> bool" where
  "containsApple webglInfo =
     (case webglInfo of
        None \<Rightarrow> False
      | Some info \<Rightarrow>
          (let combined = toLowerCase (vendor info @ '' '' @ renderer info)
           in includes_str combined ''apple'' \<or> includes_str combined ''metal''))"

definition isAngleMetal :: "webgl_info option \<Rightarrow> bool" where
  "isAngleMetal webglInfo =
     (case webglInfo of
        None \<Rightarrow> False
      | Some info \<Rightarrow>
          includes_str (toLowerCase (renderer info)) ''angle'' \<and>
          includes_str (toLowerCase (renderer info)) ''metal'')"

definition getGPUVendor :: "webgl_info option \<Rightarrow> string" where
  "getGPUVendor webglInfo =
     (case webglInfo of
        None \<Rightarrow> ''unknown''
      | Some info \<Rightarrow>
          (let combined = toLowerCase (vendor info @ '' '' @ renderer info)
           in if includes_str combined ''nvidia'' \<or> includes_str combined ''geforce'' then ''nvidia''
              else if includes_str combined ''amd'' \<or> includes_str combined ''radeon'' then ''amd''
              else if includes_str combined ''intel'' then ''intel''
              else if includes_str combined ''apple'' \<or> includes_str combined ''metal'' then ''apple''
              else ''unknown''))"

text \<open>
  \<^verbatim>\<open>userAgent.match(/os (\d+)_/)\<close> followed by \<^verbatim>\<open>parseInt(iosMatch[1])\<close>: the leftmost place
  where \<^verbatim>\<open>os\<close>, a blank, a maximal non-empty run of digits and an underscore follow one
  another; the digits are read in base ten.
\<close>

definition is_digit :: "char \<Rightarrow> bool" where
  "is_digit c = (let n = (of_char c :: nat) in 48 \<le> n \<and> n \<le> 57)"

definition parseInt :: "string \<Rightarrow> nat" where
  "parseInt ds = foldl (\<lambda>acc c. 10 * acc + (of_char c - 48)) 0 ds"

definition os_digits_here :: "string \<Rightarrow> nat option" where
  "os_digits_here s =
     (if prefix ''os '' s
      then (let ds = takeWhile is_digit (drop 3 s); rest = dropWhile is_digit (drop 3 s)
            in if ds \<noteq> [] \<and> prefix ''_'' rest then Some (parseInt ds) else None)
      else None)"

fun match_os_version :: "string \<Rightarrow> nat option" where
  "match_os_version [] = None"
| "match_os_version (c # cs) =
     (case os_digits_here (c # cs) of
        Some v \<Rightarrow> Some v
      | None \<Rightarrow> match_os_version cs)"

section \<open>The host environment and the page\<close>

text \<open>
  What the browser answers to each read the engine makes. A global that may be missing is
  an option (\<^const>\<open>None\<close>: evaluating the call throws a ReferenceError); the probes that
  wrap their work in \<^verbatim>\<open>try/catch\<close> appear with the outcome of the wrapped query.
\<close>

record host =
  maxTouchPoints :: nat
  matchMedia :: "(string \<Rightarrow> bool) option"
  webkitTouchCallout :: bool
  webkitOverflowScrolling :: bool
  ApplePaySession :: bool
  safari_pushNotification :: bool
  CSS_supports :: "(string \<Rightarrow> string \<Rightarrow> bool) option"
  NDEFReader :: bool
  navigator_nfc :: bool
  getInstalledRelatedApps :: bool
  navigator_serial :: bool
  navigator_hid :: bool
  navigator_usb :: bool
  devicePixelRatio :: rat
  getWebGLInfo :: "webgl_info option"
  mediaCapabilities :: bool
  hevc_decodingInfo :: "js_error + bool"
  vp9_decodingInfo :: "js_error + bool"
  userAgent :: string

text \<open>
  One entry of the step list, as \<^verbatim>\<open>addStep\<close> receives it (title and detail are display
  texts and are left out).
\<close>

record step =
  step_ok :: bool
  step_weight :: "int option"
  step_targets :: "string list"

text \<open>
  The mutable state a run touches: the engine's \<^verbatim>\<open>scoreSystem\<close>, and the children of the
  page's \<^verbatim>\<open>#steps\<close> element (\<^const>\<open>None\<close> when the page has no such element).
\<close>

record world =
  scoreSystem :: ledger
  steps_el :: "step list option"

text \<open>
  A statement of the source: it changes the state and either completes or throws. A
  sequence of statements (and of awaited calls) stops at the first one that throws, with
  the state as it was at the throw.
\<close>

type_synonym action = "world \<Rightarrow> js_error option \<times> world"

definition skip_act :: action where
  "skip_act w = (None, w)"

definition throw_act :: "js_error \<Rightarrow> action" where
  "throw_act e w = (Some e, w)"

fun seq :: "action list \<Rightarrow> action" where
  "seq [] w = (None, w)"
| "seq (a # as) w =
     (case a w of
        (Some e, w') \<Rightarrow> (Some e, w')
      | (None, w') \<Rightarrow> seq as w')"

definition when_act :: "bool \<Rightarrow> action \<Rightarrow> action" where
  "when_act b a = (if b then a else skip_act)"

definition addScore_act :: "string list \<Rightarrow> int \<Rightarrow> action" where
  "addScore_act targets weight w =
     (None, w\<lparr>scoreSystem := addScore (scoreSystem w) targets weight\<rparr>)"

text \<open>\<^verbatim>\<open>addStep\<close> of dom.js ends with \<^verbatim>\<open>$('#steps').appendChild(li)\<close>, which throws a
  TypeError when \<^verbatim>\<open>$('#steps')\<close> is \<^verbatim>\<open>null\<close>.\<close>

definition addStep :: "step \<Rightarrow> action" where
  "addStep st w =
     (case steps_el w of
        None \<Rightarrow> (Some TypeError, w)
      | Some children \<Rightarrow> (None, w\<lparr>steps_el := Some (children @ [st])\<rparr>))"

definition fired :: "string list \<Rightarrow> int \<Rightarrow> action" where
  "fired targets weight =
     seq [addScore_act targets weight,
          addStep \<lparr>step_ok = True, step_weight = Some weight, step_targets = targets\<rparr>]"

section \<open>The detection engine (engine.js, class DeviceDetectionEngine)\<close>

text \<open>
  Each collector first reads its signals from the host (a read of a missing global throws
  there, before anything is scored) and then scores what it found.
\<close>

definition collectBasicSignals :: "host \<Rightarrow> action" where
  "collectBasicSignals h =
     (case matchMedia h of
        None \<Rightarrow> throw_act ReferenceError
      | Some mm \<Rightarrow>
          (let touchPoints = maxTouchPoints h; coarse = mm ''(pointer: coarse)''
           in when_act (touchPoints > 0 \<or> coarse) (fired [''iOS'', ''iPadOS'', ''Android''] 2)))"

definition collectAppleSignals :: "host \<Rightarrow> action" where
  "collectAppleSignals h =
     (case CSS_supports h of
        None \<Rightarrow> throw_act ReferenceError
      | Some _ \<Rightarrow>
          (case matchMedia h of
             None \<Rightarrow> throw_act ReferenceError
           | Some _ \<Rightarrow>
               seq [when_act (ApplePaySession h) (fired [''iOS'', ''iPadOS'', ''macOS''] 8),
                    when_act (webkitTouchCallout h \<or> webkitOverflowScrolling h)
                      (fired [''iOS'', ''iPadOS''] 4),
                    when_act (safari_pushNotification h) (fired [''macOS''] 6)]))"

definition collectAndroidSignals :: "host \<Rightarrow> action" where
  "collectAndroidSignals h = when_act (getInstalledRelatedApps h) (fired [''Android''] 5)"

definition collectDesktopSignals :: "host \<Rightarrow> action" where
  "collectDesktopSignals h =
     (let desktopAPIs = int (length (filter id [navigator_serial h, navigator_hid h, navigator_usb h]))
      in when_act (desktopAPIs > 0) (fired [''Windows'', ''macOS'', ''Linux''] (desktopAPIs * 2)))"

definition collectDisplaySignals :: "host \<Rightarrow> action" where
  "collectDisplaySignals h =
     (let dpr = (if devicePixelRatio h = 0 then 1 else devicePixelRatio h)
      in when_act (dpr \<ge> 2) (fired [''macOS'', ''iOS'', ''iPadOS''] 3))"

text \<open>
  \<^verbatim>\<open>getWebGLInfo\<close> catches whatever its body throws and returns \<^verbatim>\<open>null\<close>; the host field is
  its return value. The step for the GPU vendor is added with weight 5 for apple and 3
  for every other vendor, whatever weight was scored.
\<close>

definition performWebGLDetection :: "host \<Rightarrow> action" where
  "performWebGLDetection h =
     (let webglInfo = getWebGLInfo h
      in if webglInfo = None then skip_act
         else seq
           [when_act (containsApple webglInfo) (fired [''macOS'', ''iOS'', ''iPadOS''] 6),
            when_act (isAngleMetal webglInfo) (fired [''macOS''] 4),
            (let gpuVendor = getGPUVendor webglInfo
             in seq
               [if gpuVendor = ''apple'' then addScore_act [''macOS'', ''iOS'', ''iPadOS''] 5
                else if gpuVendor = ''intel'' then addScore_act [''Windows'', ''macOS'', ''Linux''] 3
                else if gpuVendor = ''nvidia'' then addScore_act [''Windows'', ''Linux''] 4
                else if gpuVendor = ''amd'' then addScore_act [''Windows'', ''Linux''] 3
                else skip_act,
                when_act (gpuVendor \<noteq> ''unknown'')
                  (addStep
                     \<lparr>step_ok = True,
                      step_weight = Some (if gpuVendor = ''apple'' then 5 else 3),
                      step_targets =
                        (if gpuVendor = ''apple'' then [''macOS'', ''iOS'', ''iPadOS'']
                         else if gpuVendor = ''nvidia'' \<or> gpuVendor = ''amd''
                           then [''Windows'', ''Linux'']
                         else [''Windows'', ''macOS'', ''Linux''])\<rparr>)])])"

text \<open>nfc.js. \<^verbatim>\<open>checkNFCCapabilities\<close> catches its own failures; only \<^verbatim>\<open>hasAPI\<close> is read.\<close>

definition checkNFCCapabilities_hasAPI :: "host \<Rightarrow> bool" where
  "checkNFCCapabilities_hasAPI h = (if NDEFReader h then True else navigator_nfc h)"

definition hasNFCSupport :: "host \<Rightarrow> bool" where
  "hasNFCSupport h =
     (let ua = toLowerCase (userAgent h)
      in if includes_str ua ''android'' then True
         else (case (if includes_str ua ''iphone'' \<or> includes_str ua ''ipad''
                     then match_os_version ua else None) of
                 Some iosVersion \<Rightarrow> iosVersion \<ge> 11
               | None \<Rightarrow> NDEFReader h \<or> navigator_nfc h))"

definition performNFCDetection :: "host \<Rightarrow> action" where
  "performNFCDetection h =
     seq [when_act (checkNFCCapabilities_hasAPI h) (fired [''Android''] 4),
          when_act (hasNFCSupport h)
            (if includes_str (toLowerCase (userAgent h)) ''android''
               then addScore_act [''Android''] 2
             else if includes_str (toLowerCase (userAgent h)) ''iphone''
               then addScore_act [''iOS''] 2
             else skip_act)]"

text \<open>
  media.js. Without the \<^verbatim>\<open>mediaCapabilities\<close> API both results stay \<^verbatim>\<open>null\<close>; a query that
  throws or rejects is caught by its check and counts as \<^verbatim>\<open>false\<close>.
\<close>

definition checkHEVCSupport :: "host \<Rightarrow> bool" where
  "checkHEVCSupport h = (case hevc_decodingInfo h of Inl _ \<Rightarrow> False | Inr supported \<Rightarrow> supported)"

definition checkVP9Support :: "host \<Rightarrow> bool" where
  "checkVP9Support h = (case vp9_decodingInfo h of Inl _ \<Rightarrow> False | Inr supported \<Rightarrow> supported)"

definition performMediaDetection :: "host \<Rightarrow> action" where
  "performMediaDetection h =
     (let hevc = (if mediaCapabilities h then Some (checkHEVCSupport h) else None);
          vp9 = (if mediaCapabilities h then Some (checkVP9Support h) else None)
      in seq [when_act (hevc = Some True) (fired [''macOS'', ''iOS'', ''iPadOS''] 4),
              when_act (vp9 = Some True) (fired [''Android'', ''Windows'', ''Linux''] 2)])"

definition performUserAgentAnalysis :: "host \<Rightarrow> action" where
  "performUserAgentAnalysis h =
     (let ua = toLowerCase (userAgent h)
      in seq [when_act (includes_str ua ''mac os x'' \<or> includes_str ua ''macos'') (fired [''macOS''] 6),
              when_act (includes_str ua ''windows nt'') (fired [''Windows''] 6),
              when_act (includes_str ua ''linux'' \<and> \<not> includes_str ua ''android'') (fired [''Linux''] 6),
              when_act (includes_str ua ''iphone'' \<or> includes_str ua ''ipod'') (fired [''iOS''] 8),
              when_act (includes_str ua ''ipad'') (fired [''iPadOS''] 8),
              when_act (includes_str ua ''android'') (fired [''Android''] 8)])"

definition addSignalSnapshot :: action where
  "addSignalSnapshot = addStep \<lparr>step_ok = True, step_weight = None, step_targets = []\<rparr>"

text \<open>The constructor: a fresh score system. It runs once per engine object.\<close>

definition DeviceDetectionEngine_constructor :: ledger where
  "DeviceDetectionEngine_constructor = OSScoreSystem_constructor"

text \<open>
  \<^verbatim>\<open>startDetection()\<close>: the nine steps in the order of the source, with no \<^verbatim>\<open>try\<close> around any
  of them, then the query of the score system and the snapshot step. It works on
  \<^verbatim>\<open>this.scoreSystem\<close> as it finds it. (\<^verbatim>\<open>updateConfidence\<close> and \<^verbatim>\<open>updateScoreBoard\<close> only paint
  the result, behind null checks.)
\<close>

definition detection_steps :: "host \<Rightarrow> action list" where
  "detection_steps h =
     [collectBasicSignals h, collectAppleSignals h, collectAndroidSignals h,
      collectDesktopSignals h, collectDisplaySignals h, performWebGLDetection h,
      performNFCDetection h, performMediaDetection h, performUserAgentAnalysis h]"

definition Engine_startDetection :: "host \<Rightarrow> world \<Rightarrow> (js_error + top_result) \<times> world" where
  "Engine_startDetection h w =
     (case seq (detection_steps h) w of
        (Some e, w') \<Rightarrow> (Inl e, w')
      | (None, w') \<Rightarrow>
          (case getTopOS (scoreSystem w') of
             Inl e \<Rightarrow> (Inl e, w')
           | Inr result \<Rightarrow>
               (case addSignalSnapshot w' of
                  (Some e, w'') \<Rightarrow> (Inl e, w'')
                | (None, w'') \<Rightarrow> (Inr result, w''))))"

section \<open>The application (main.js, class DeviceDetectorApp)\<close>

record app =
  isDetecting :: bool
  engine :: world

text \<open>What a call of \<^verbatim>\<open>startDetection\<close> writes to the console before its promise resolves.\<close>

datatype console_message =
    Warn_already_detecting
  | Log_done top_result
  | Error_failed js_error

definition DeviceDetectorApp_constructor :: "step list option \<Rightarrow> app" where
  "DeviceDetectorApp_constructor page_steps =
     \<lparr>isDetecting = False,
      engine = \<lparr>scoreSystem = DeviceDetectionEngine_constructor, steps_el = page_steps\<rparr>\<rparr>"

text \<open>\<^verbatim>\<open>if (stepsContainer) stepsContainer.innerHTML = ''\<close>: the step list of the page is
  emptied when the element exists.\<close>

definition clear_steps :: "world \<Rightarrow> world" where
  "clear_steps w = (case steps_el w of None \<Rightarrow> w | Some _ \<Rightarrow> w\<lparr>steps_el := Some []\<rparr>)"

text \<open>
  \<^verbatim>\<open>startDetection()\<close> of the application. The guard returns after a warning. Otherwise the
  flag is set, the step list is cleared, the engine runs, an error of the run is caught and
  shown, and \<^verbatim>\<open>finally\<close> clears the flag. No path rejects the promise: the result is always
  \<^const>\<open>Inr\<close>.
\<close>

definition DeviceDetectorApp_startDetection ::
  "host \<Rightarrow> app \<Rightarrow> (js_error + console_message) \<times> app" where
  "DeviceDetectorApp_startDetection h a =
     (if isDetecting a then (Inr Warn_already_detecting, a)
      else
        (case Engine_startDetection h (clear_steps (engine a)) of
           (Inr result, w2) \<Rightarrow> (Inr (Log_done result), \<lparr>isDetecting = False, engine = w2\<rparr>)
         | (Inl error, w2) \<Rightarrow> (Inr (Error_failed error), \<lparr>isDetecting = False, engine = w2\<rparr>)))"

definition DeviceDetectorApp_restartDetection ::
  "host \<Rightarrow> app \<Rightarrow> (js_error + console_message) \<times> app" where
  "DeviceDetectorApp_restartDetection h a = DeviceDetectorApp_startDetection h a"

text \<open>Four hosts to run the engine on: a desktop browser, the same browser without the
  global \<^verbatim>\<open>CSS\<close>, on which \<^verbatim>\<open>collectAppleSignals\<close> (and no other step) throws, a browser
  on an Android phone, and a host on which no signal fires.\<close>

definition desktop_host :: host where
  "desktop_host =
     \<lparr>maxTouchPoints = 0,
      matchMedia = Some (\<lambda>q. q = ''(pointer: fine)'' \<or> q = ''(hover: hover)''),
      webkitTouchCallout = False,
      webkitOverflowScrolling = False,
      ApplePaySession = False,
      safari_pushNotification = False,
      CSS_supports = Some (\<lambda>property v. True),
      NDEFReader = False,
      navigator_nfc = False,
      getInstalledRelatedApps = False,
      navigator_serial = True,
      navigator_hid = True,
      navigator_usb = True,
      devicePixelRatio = 1,
      getWebGLInfo = Some \<lparr>vendor = ''Google Inc. (NVIDIA)'',
                          renderer = ''ANGLE (NVIDIA GeForce)''\<rparr>,
      mediaCapabilities = True,
      hevc_decodingInfo = Inr False,
      vp9_decodingInfo = Inr True,
      userAgent = ''Mozilla/5.0 (Windows NT 10.0; Win64; x64)''\<rparr>"

definition no_css_host :: host where
  "no_css_host = desktop_host\<lparr>CSS_supports := None\<rparr>"

definition silent_host :: host where
  "silent_host =
     \<lparr>maxTouchPoints = 0,
      matchMedia = Some (\<lambda>q. False),
      webkitTouchCallout = False,
      webkitOverflowScrolling = False,
      ApplePaySession = False,
      safari_pushNotification = False,
      CSS_supports = Some (\<lambda>property v. False),
      NDEFReader = False,
      navigator_nfc = False,
      getInstalledRelatedApps = False,
      navigator_serial = False,
      navigator_hid = False,
      navigator_usb = False,
      devicePixelRatio = 1,
      getWebGLInfo = None,
      mediaCapabilities = False,
      hevc_decodingInfo = Inr False,
      vp9_decodingInfo = Inr False,
      userAgent = ''curl/8.0''\<rparr>"

definition android_host :: host where
  "android_host =
     \<lparr>maxTouchPoints = 5,
      matchMedia = Some (\<lambda>q. q = ''(pointer: coarse)''),
      webkitTouchCallout = False,
      webkitOverflowScrolling = False,
      ApplePaySession = False,
      safari_pushNotification = False,
      CSS_supports = Some (\<lambda>property v. True),
      NDEFReader = True,
      navigator_nfc = False,
      getInstalledRelatedApps = True,
      navigator_serial = False,
      navigator_hid = False,
      navigator_usb = False,
      devicePixelRatio = 3,
      getWebGLInfo = Some \<lparr>vendor = ''Qualcomm'', renderer = ''Adreno (TM) 640''\<rparr>,
      mediaCapabilities = True,
      hevc_decodingInfo = Inr False,
      vp9_decodingInfo = Inr True,
      userAgent = ''Mozilla/5.0 (Linux; Android 13; Pixel 7)''\<rparr>"

section \<open>Properties of the ledger\<close>

subsection \<open>Maximum, total and search\<close>

lemma Math_max_Max: "xs \<noteq> [] \<Longrightarrow> Math_max xs = Some (Max (set xs))"
proof (induction xs)
  case Nil
  then show ?case by simp
next
  case (Cons x xs)
  show ?case
  proof (cases "xs = []")
    case True
    then show ?thesis by simp
  next
    case False
    with Cons.IH have "Math_max xs = Some (Max (set xs))" by simp
    with False show ?thesis by simp
  qed
qed

lemma foldl_plus_sum_list: "foldl (+) (a::int) xs = a + sum_list xs"
  by (induction xs arbitrary: a) auto

lemma total_sum_list: "foldl (+) 0 (Object_values scores) = sum_list (map snd scores)"
  by (simp add: foldl_plus_sum_list Object_values_def)

lemma getTopOS_alt:
  "getTopOS scores =
     (if Math_max (map snd scores) = Some 0 \<or> sum_list (map snd scores) = 0
      then Inr \<lparr>os = unknown_os, confidence = 0\<rparr>
      else (case Math_max (map snd scores) of
              None \<Rightarrow> Inl TypeError
            | Some m \<Rightarrow>
                (case find (\<lambda>(_, score). score = m) scores of
                   None \<Rightarrow> Inl TypeError
                 | Some (topOS, _) \<Rightarrow>
                     Inr \<lparr>os = topOS,
                          confidence = confidence_formula m (sum_list (map snd scores))\<rparr>)))"
  by (simp add: getTopOS_def Let_def Object_values_def foldl_plus_sum_list)

lemma sum_all_zero: "list_all (\<lambda>(k, v). v = 0) scores \<Longrightarrow> sum_list (map snd scores) = (0::int)"
  by (induction scores) auto

lemma find_first_match:
  "list_all (\<lambda>(k', v). v \<noteq> m) pre \<Longrightarrow>
     find (\<lambda>(_, score). score = m) (pre @ (k, m) # post) = Some (k, m)"
  by (induction pre) auto

lemma Max_first_match:
  assumes "list_all (\<lambda>(k', v). v < m) pre" and "list_all (\<lambda>(k', v). v \<le> m) post"
  shows "Max (set (map snd (pre @ (k, m) # post))) = (m::int)"
proof (rule Max_eqI)
  show "finite (set (map snd (pre @ (k, m) # post)))" by simp
  show "m \<in> set (map snd (pre @ (k, m) # post))" by simp
  fix y assume "y \<in> set (map snd (pre @ (k, m) # post))"
  with assms show "y \<le> m"
    by (auto simp: list_all_iff)
qed

lemma sum_list_ge_member:
  "list_all (\<lambda>v. 0 \<le> v) xs \<Longrightarrow> x \<in> set xs \<Longrightarrow> (x::int) \<le> sum_list xs"
proof (induction xs)
  case Nil
  then show ?case by simp
next
  case (Cons a xs)
  have "0 \<le> sum_list xs" using Cons.prems(1) by (simp add: sum_list_nonneg list_all_iff)
  with Cons show ?case by auto
qed

lemma sum_list_pos_member: "0 < sum_list xs \<Longrightarrow> \<exists>x \<in> set xs. (0::int) < x"
proof (induction xs)
  case Nil
  then show ?case by simp
next
  case (Cons a xs)
  then show ?case by (cases "0 < a") auto
qed

lemma sum_list_le_length_Max:
  "xs \<noteq> [] \<Longrightarrow> sum_list xs \<le> int (length xs) * Max (set xs)"
proof (induction xs)
  case Nil
  then show ?case by simp
next
  case (Cons a xs)
  show ?case
  proof (cases "xs = []")
    case True
    then show ?thesis by simp
  next
    case False
    with Cons.IH have ih: "sum_list xs \<le> int (length xs) * Max (set xs)" by simp
    have m1: "Max (set xs) \<le> Max (set (a # xs))" using False by (simp add: max.coboundedI2)
    have m2: "a \<le> Max (set (a # xs))" by simp
    have "int (length xs) * Max (set xs) \<le> int (length xs) * Max (set (a # xs))"
      using m1 by (simp add: mult_left_mono)
    with ih m2 have "a + sum_list xs \<le> Max (set (a # xs)) + int (length xs) * Max (set (a # xs))"
      by linarith
    then show ?thesis by (simp add: algebra_simps)
  qed
qed

text \<open>With a positive total the query takes its last branch: it names an entry that holds
  the maximum and applies the formula to the maximum and the total.\<close>

lemma getTopOS_positive_total:
  assumes "0 < sum_list (map snd scores)"
  shows "\<exists>k. (k, Max (set (map snd scores))) \<in> set scores \<and>
            getTopOS scores =
              Inr \<lparr>os = k,
                   confidence =
                     confidence_formula (Max (set (map snd scores))) (sum_list (map snd scores))\<rparr>"
proof -
  let ?vals = "map snd scores"
  let ?m = "Max (set ?vals)"
  from assms have ne: "?vals \<noteq> []" by auto
  from sum_list_pos_member [OF assms] obtain x where x: "x \<in> set ?vals" "0 < x" by blast
  then have "x \<le> ?m" by simp
  with x have mpos: "0 < ?m" by linarith
  have mm: "Math_max ?vals = Some ?m" using ne by (rule Math_max_Max)
  have "?m \<in> set ?vals" using ne Max_in [of "set ?vals"] by simp
  then have "find (\<lambda>(_, score). score = ?m) scores \<noteq> None"
    by (auto simp: find_None_iff)
  then obtain k v where f: "find (\<lambda>(_, score). score = ?m) scores = Some (k, v)" by auto
  then have "(k, ?m) \<in> set scores"
    by (auto simp: find_Some_iff in_set_conv_nth)
  then show ?thesis
    using mm mpos assms f by (simp add: getTopOS_alt)
qed

subsection \<open>Double precision: the rounding error\<close>

text \<open>Rounding a positive number to a double moves it by at most half a unit in the
  last place, which is at most the \<open>2 ^ 53\<close>-th part of the number.\<close>

lemma round_half_even_lower: "x - 1 / 2 \<le> of_int (round_half_even x)"
proof -
  have "of_int \<lfloor>x\<rfloor> \<le> x" and "x < of_int \<lfloor>x\<rfloor> + 1" by linarith+
  then show ?thesis
    unfolding round_half_even_def Let_def by (auto simp: not_less)
qed

lemma pow2_nat: "0 \<le> k \<Longrightarrow> rat_of_int (2 ^ nat k) = 2 powi k"
  by (simp add: power_int_def)

lemma binade_lower:
  assumes x: "0 < x"
  shows "2 powi (binade x) \<le> x"
proof -
  obtain p q where pq: "quotient_of x = (p, q)" by (cases "quotient_of x")
  then have q: "0 < q" and xd: "x = of_int p / of_int q"
    by (auto dest: quotient_of_denom_pos quotient_of_div)
  from x xd q have p: "0 < p" by (simp add: zero_less_divide_iff)
  let ?e0 = "bitlen p - bitlen q"
  show ?thesis
  proof (cases "2 powi ?e0 \<le> x")
    case True
    then show ?thesis by (simp add: binade_def pq)
  next
    case False
    have bp: "1 \<le> bitlen p" and bq: "1 \<le> bitlen q"
      using p q bitlen_eq_zero_iff [of p] bitlen_eq_zero_iff [of q] bitlen_nonneg [of p] bitlen_nonneg [of q]
      by linarith+
    have kp: "0 \<le> bitlen p - 1" and kq: "0 \<le> bitlen q" using bp bq by simp_all
    from bitlen_bounds [OF p] have "2 ^ nat (bitlen p - 1) \<le> p" by simp
    then have "rat_of_int (2 ^ nat (bitlen p - 1)) \<le> of_int p" by (simp only: of_int_le_iff)
    then have lp: "2 powi (bitlen p - 1) \<le> rat_of_int p" unfolding pow2_nat [OF kp] .
    from bitlen_bounds [OF q] have "q < 2 ^ nat (bitlen q)" by simp
    then have "rat_of_int q < of_int (2 ^ nat (bitlen q))" by (simp only: of_int_less_iff)
    then have uq: "rat_of_int q < 2 powi (bitlen q)" unfolding pow2_nat [OF kq] .
    have qpos: "0 < rat_of_int q" using q by simp
    have e: "?e0 - 1 = (bitlen p - 1) - bitlen q" by simp
    have "(2::rat) powi ((bitlen p - 1) - bitlen q) = 2 powi (bitlen p - 1) / 2 powi (bitlen q)"
      by (rule power_int_diff) simp
    then have "2 powi (?e0 - 1) = 2 powi (bitlen p - 1) / (2 powi (bitlen q) :: rat)"
      by (simp only: e)
    also have "\<dots> \<le> of_int p / 2 powi (bitlen q)"
      using lp by (simp add: divide_right_mono)
    also have "\<dots> \<le> of_int p / of_int q"
      using uq qpos p by (intro divide_left_mono) (simp_all)
    finally have "2 powi (?e0 - 1) \<le> x" by (simp add: xd)
    with False show ?thesis by (simp add: binade_def pq)
  qed
qed

lemma to_double_lower:
  assumes x: "0 < x"
  shows "x * (1 - 1 / 2 ^ 53) \<le> to_double x"
proof -
  define ulp :: rat where "ulp = 2 powi (binade x - 52)"
  have up: "0 < ulp" by (simp add: ulp_def)
  have "ulp = 2 powi (binade x) / 2 ^ 52"
    by (simp add: ulp_def power_int_diff)
  also have "\<dots> \<le> x / 2 ^ 52"
    using binade_lower [OF x] by (simp add: divide_right_mono)
  finally have ul: "ulp \<le> x / 2 ^ 52" .
  have "x / ulp - 1 / 2 \<le> of_int (round_half_even (x / ulp))"
    by (rule round_half_even_lower)
  then have "(x / ulp - 1 / 2) * ulp \<le> of_int (round_half_even (x / ulp)) * ulp"
    using up by (simp only: mult_le_cancel_right_pos)
  moreover have "(x / ulp - 1 / 2) * ulp = x - ulp / 2"
    using up by (simp add: field_simps)
  ultimately have r: "x - ulp / 2 \<le> of_int (round_half_even (x / ulp)) * ulp" by simp
  have "x * (1 - 1 / 2 ^ 53) \<le> x - ulp / 2"
    using ul by (simp add: field_simps)
  with r have "x * (1 - 1 / 2 ^ 53) \<le> of_int (round_half_even (x / ulp)) * ulp" by linarith
  then show ?thesis
    using x by (simp add: to_double_def double_of_pos_def Let_def ulp_def)
qed

lemma round_half_even_upper: "of_int (round_half_even x) \<le> x + 1 / 2"
proof -
  have f: "of_int \<lfloor>x\<rfloor> \<le> x" "x < of_int \<lfloor>x\<rfloor> + 1" by linarith+
  consider "x - of_int \<lfloor>x\<rfloor> < 1 / 2" | "1 / 2 < x - of_int \<lfloor>x\<rfloor>"
    | "x - of_int \<lfloor>x\<rfloor> = 1 / 2" by linarith
  then show ?thesis
  proof cases
    case 1
    then have e: "round_half_even x = \<lfloor>x\<rfloor>" by (simp add: round_half_even_def Let_def)
    show ?thesis unfolding e using f by linarith
  next
    case 2
    then have e: "round_half_even x = \<lfloor>x\<rfloor> + 1" by (simp add: round_half_even_def Let_def)
    show ?thesis unfolding e of_int_add of_int_1 using 2 by linarith
  next
    case 3
    then have "round_half_even x = (if even \<lfloor>x\<rfloor> then \<lfloor>x\<rfloor> else \<lfloor>x\<rfloor> + 1)"
      by (simp add: round_half_even_def Let_def)
    then consider "round_half_even x = \<lfloor>x\<rfloor>" | "round_half_even x = \<lfloor>x\<rfloor> + 1"
      by (cases "even \<lfloor>x\<rfloor>") simp_all
    then show ?thesis
    proof cases
      case 1
      show ?thesis unfolding 1 using f by linarith
    next
      case 2
      show ?thesis unfolding 2 of_int_add of_int_1 using 3 by linarith
    qed
  qed
qed

lemma to_double_upper:
  assumes x: "0 < x"
  shows "to_double x \<le> x * (1 + 1 / 2 ^ 53)"
proof -
  define ulp :: rat where "ulp = 2 powi (binade x - 52)"
  have up: "0 < ulp" by (simp add: ulp_def)
  have "ulp = 2 powi (binade x) / 2 ^ 52"
    by (simp add: ulp_def power_int_diff)
  also have "\<dots> \<le> x / 2 ^ 52"
    using binade_lower [OF x] by (simp add: divide_right_mono)
  finally have ul: "ulp \<le> x / 2 ^ 52" .
  have "of_int (round_half_even (x / ulp)) \<le> x / ulp + 1 / 2"
    by (rule round_half_even_upper)
  then have "of_int (round_half_even (x / ulp)) * ulp \<le> (x / ulp + 1 / 2) * ulp"
    using up by (simp only: mult_le_cancel_right_pos)
  moreover have "(x / ulp + 1 / 2) * ulp = x + ulp / 2"
    using up by (simp add: field_simps)
  ultimately have r: "of_int (round_half_even (x / ulp)) * ulp \<le> x + ulp / 2" by simp
  have "x + ulp / 2 \<le> x * (1 + 1 / 2 ^ 53)"
    using ul by (simp add: field_simps)
  with r have "of_int (round_half_even (x / ulp)) * ulp \<le> x * (1 + 1 / 2 ^ 53)" by linarith
  then show ?thesis
    using x by (simp add: to_double_def double_of_pos_def Let_def ulp_def)
qed

text \<open>The double-precision share of a non-negative score: the product computed by the
  source is the exact share up to two relative errors of \<open>2 ^ 53\<close>-th each.\<close>

lemma double_share_bounds:
  assumes v: "0 \<le> v" and t: "0 < t"
  shows "rat_of_int v / of_int t * 100 * (1 - 1 / 2 ^ 53) * (1 - 1 / 2 ^ 53)
           \<le> js_mul (js_div (of_int v) (of_int t)) 100"
    and "js_mul (js_div (of_int v) (of_int t)) 100
           \<le> rat_of_int v / of_int t * 100 * (1 + 1 / 2 ^ 53) * (1 + 1 / 2 ^ 53)"
proof -
  let ?q = "rat_of_int v / of_int t"
  let ?d = "js_div (rat_of_int v) (of_int t)"
  have both: "?q * 100 * (1 - 1 / 2 ^ 53) * (1 - 1 / 2 ^ 53) \<le> js_mul ?d 100
        \<and> js_mul ?d 100 \<le> ?q * 100 * (1 + 1 / 2 ^ 53) * (1 + 1 / 2 ^ 53)"
  proof (cases "v = 0")
    case True
    then show ?thesis by (simp add: js_div_def js_mul_def to_double_def)
  next
    case False
    with v t have qpos: "0 < ?q" by simp
    have d1: "?q * (1 - 1 / 2 ^ 53) \<le> ?d" and d2: "?d \<le> ?q * (1 + 1 / 2 ^ 53)"
      unfolding js_div_def by (rule to_double_lower [OF qpos], rule to_double_upper [OF qpos])
    have "0 < ?q * (1 - 1 / 2 ^ 53)" using qpos by simp
    with d1 have dpos: "0 < ?d * 100" by linarith
    have m1: "?d * 100 * (1 - 1 / 2 ^ 53) \<le> js_mul ?d 100"
      and m2: "js_mul ?d 100 \<le> ?d * 100 * (1 + 1 / 2 ^ 53)"
      unfolding js_mul_def by (rule to_double_lower [OF dpos], rule to_double_upper [OF dpos])
    have "?q * (1 - 1 / 2 ^ 53) * (100 * (1 - 1 / 2 ^ 53)) \<le> ?d * (100 * (1 - 1 / 2 ^ 53))"
      using d1 by (rule mult_right_mono) simp
    moreover have "?d * (100 * (1 + 1 / 2 ^ 53)) \<le> ?q * (1 + 1 / 2 ^ 53) * (100 * (1 + 1 / 2 ^ 53))"
      using d2 by (rule mult_right_mono) simp
    ultimately show ?thesis using m1 m2 by (simp add: mult.assoc mult.left_commute mult.commute)
  qed
  from both show "?q * 100 * (1 - 1 / 2 ^ 53) * (1 - 1 / 2 ^ 53) \<le> js_mul ?d 100"
    and "js_mul ?d 100 \<le> ?q * 100 * (1 + 1 / 2 ^ 53) * (1 + 1 / 2 ^ 53)"
    by simp_all
qed


lemma confidence_formula_sixth:
  assumes t: "0 < t" and m: "t \<le> 6 * m"
  shows "17 \<le> confidence_formula m t"
proof -
  let ?u = "1 - 1 / 2 ^ 53 :: rat"
  let ?q = "rat_of_int m / of_int t"
  have tq: "0 < rat_of_int t" using t by simp
  have "rat_of_int t \<le> 6 * of_int m" using m by (metis of_int_le_iff of_int_mult of_int_numeral)
  then have q6: "1 / 6 \<le> ?q" using tq by (simp add: field_simps)
  then have qpos: "0 < ?q" by linarith
  have d: "?q * ?u \<le> js_div (of_int m) (of_int t)"
    unfolding js_div_def by (rule to_double_lower [OF qpos])
  have upos: "0 < ?u" by simp
  have "1 / 6 * ?u \<le> ?q * ?u" using q6 upos by (simp only: mult_le_cancel_right_pos)
  with d have d6: "1 / 6 * ?u \<le> js_div (of_int m) (of_int t)" by linarith
  let ?d = "js_div (rat_of_int m) (of_int t)"
  have dpos: "0 < ?d * 100" using d6 by simp
  have "?d * 100 * ?u \<le> js_mul ?d 100"
    unfolding js_mul_def by (rule to_double_lower [OF dpos])
  moreover have "1 / 6 * ?u * 100 * ?u \<le> ?d * 100 * ?u"
    using d6 upos by simp
  moreover have "33 / 2 \<le> 1 / 6 * ?u * 100 * ?u" by simp
  ultimately have "33 / 2 \<le> js_mul ?d 100" by linarith
  then have "17 \<le> js_mul ?d 100 + 1 / 2" by linarith
  then have "17 \<le> \<lfloor>js_mul ?d 100 + 1 / 2\<rfloor>" by (simp add: le_floor_iff)
  then show ?thesis by (simp add: confidence_formula_def Math_round_def)
qed

text \<open>The query never throws: when it passes its guard, some entry holds the maximum.\<close>

lemma getTopOS_returns: "\<exists>r. getTopOS scores = Inr r"
proof (cases "Math_max (map snd scores) = Some 0 \<or> sum_list (map snd scores) = 0")
  case True
  then show ?thesis by (auto simp: getTopOS_alt)
next
  case False
  then have ne: "map snd scores \<noteq> []" by auto
  let ?m = "Max (set (map snd scores))"
  have mm: "Math_max (map snd scores) = Some ?m" using ne by (rule Math_max_Max)
  have "?m \<in> set (map snd scores)" using ne Max_in [of "set (map snd scores)"] by simp
  then have "find (\<lambda>(_, score). score = ?m) scores \<noteq> None"
    by (auto simp: find_None_iff)
  then obtain k v where "find (\<lambda>(_, score). score = ?m) scores = Some (k, v)" by auto
  with False mm show ?thesis by (simp add: getTopOS_alt)
qed

subsection \<open>What addScore does to the entries\<close>

lemma add_to_absent: "\<not> hasOwnProperty scores t \<Longrightarrow> add_to scores t w = scores"
  by (induction scores) (auto simp: add_to_def hasOwnProperty_def)

lemma addScore_fold_add_to:
  "addScore scores targets w = fold (\<lambda>t s. add_to s t w) targets scores"
proof -
  have "(\<lambda>target s. if hasOwnProperty s target then add_to s target w else s)
        = (\<lambda>t s. add_to s t w)"
    by (intro ext) (simp add: add_to_absent)
  then show ?thesis by (simp add: addScore_def)
qed

lemma addScore_count:
  "addScore scores targets w = map (\<lambda>(k, v). (k, v + w * int (count_list targets k))) scores"
  unfolding addScore_fold_add_to
proof (induction targets arbitrary: scores)
  case Nil
  then show ?case by (simp add: case_prod_unfold)
next
  case (Cons t targets)
  have "fold (\<lambda>t s. add_to s t w) (t # targets) scores
        = fold (\<lambda>t s. add_to s t w) targets (add_to scores t w)"
    by simp
  also have "\<dots> = map (\<lambda>(k, v). (k, v + w * int (count_list targets k))) (add_to scores t w)"
    by (rule Cons.IH)
  also have "\<dots> = map (\<lambda>(k, v). (k, v + w * int (count_list (t # targets) k))) scores"
    by (auto simp: add_to_def algebra_simps)
  finally show ?case .
qed

lemma addScore_commute:
  "addScore (addScore s t1 w1) t2 w2 = addScore (addScore s t2 w2) t1 w1"
  by (simp add: addScore_count case_prod_unfold algebra_simps)

lemma map_fst_addScore: "map fst (addScore scores targets w) = map fst scores"
  by (simp add: addScore_count case_prod_unfold comp_def)

lemma map_fst_apply_observations: "map fst (apply_observations scores obs) = map fst scores"
  unfolding apply_observations_def
  by (induction obs arbitrary: scores) (auto simp: map_fst_addScore)

lemma apply_observations_perm:
  "mset obs = mset obs' \<Longrightarrow> apply_observations s obs = apply_observations s obs'"
  unfolding apply_observations_def
  by (rule arg_cong [where f = "\<lambda>f. f s"], rule fold_multiset_equiv)
     (auto simp: fun_eq_iff addScore_commute)

subsection \<open>Sums of rounded shares\<close>

lemma Math_round_bounds:
  "of_int (Math_round x) \<le> x + 1 / 2" "x - 1 / 2 < of_int (Math_round x)"
  unfolding Math_round_def by linarith+

lemma sum_round_upper:
  "of_int (sum_list (map Math_round xs)) \<le> sum_list xs + of_nat (length xs) / 2"
proof (induction xs)
  case Nil
  then show ?case by simp
next
  case (Cons x xs)
  from Math_round_bounds(1) [of x] Cons.IH show ?case
    by (simp add: add_divide_distrib)
qed

lemma sum_round_lower:
  "xs \<noteq> [] \<Longrightarrow> sum_list xs - of_nat (length xs) / 2 < of_int (sum_list (map Math_round xs))"
proof (induction xs)
  case Nil
  then show ?case by simp
next
  case (Cons x xs)
  show ?case
  proof (cases "xs = []")
    case True
    with Math_round_bounds(2) [of x] show ?thesis by simp
  next
    case False
    with Cons.IH have "sum_list xs - of_nat (length xs) / 2 < of_int (sum_list (map Math_round xs))"
      by simp
    with Math_round_bounds(2) [of x] show ?thesis
      by (simp add: add_divide_distrib)
  qed
qed

lemma sum_shares:
  "t \<noteq> 0 \<Longrightarrow>
   sum_list (map (\<lambda>v. (of_int v / of_int t) * 100) vs) = (of_int (sum_list vs) / of_int t) * (100::rat)"
  by (induction vs) (simp_all add: add_divide_distrib distrib_right)

lemma confidenceOf_entries:
  assumes "distinct (map fst scores)" and "sum_list (map snd scores) \<noteq> 0"
  shows "map (confidenceOf scores) (map fst scores)
         = map (\<lambda>v. Math_round ((of_int v / of_int (sum_list (map snd scores))) * 100)) (map snd scores)"
proof -
  have "\<And>k v. (k, v) \<in> set scores \<Longrightarrow> map_of scores k = Some v"
    using assms(1) by simp
  then show ?thesis
    using assms(2)
    by (auto simp: confidenceOf_def total_sum_list)
qed

lemma confidence_sum_general:
  assumes d: "distinct (map fst scores)" and t: "sum_list (map snd scores) \<noteq> 0"
  shows "100 - rat_of_nat (length scores) / 2
           < rat_of_int (sum_list (map (confidenceOf scores) (map fst scores)))"
    and "rat_of_int (sum_list (map (confidenceOf scores) (map fst scores)))
           \<le> 100 + rat_of_nat (length scores) / 2"
proof -
  let ?T = "sum_list (map snd scores)"
  let ?xs = "map (\<lambda>v. (rat_of_int v / of_int ?T) * 100) (map snd scores)"
  have ne: "scores \<noteq> []" using t by auto
  have c: "map (confidenceOf scores) (map fst scores) = map Math_round ?xs"
    using confidenceOf_entries [OF d t] by (simp add: comp_def)
  have s: "sum_list ?xs = 100"
    using sum_shares [OF t, of "map snd scores"] t by simp
  have len: "length ?xs = length scores" by simp
  have nexs: "?xs \<noteq> []" using ne by simp
  show "100 - rat_of_nat (length scores) / 2
          < rat_of_int (sum_list (map (confidenceOf scores) (map fst scores)))"
    using sum_round_lower [OF nexs] unfolding c s len .
  show "rat_of_int (sum_list (map (confidenceOf scores) (map fst scores)))
          \<le> 100 + rat_of_nat (length scores) / 2"
    using sum_round_upper [of ?xs] unfolding c s len .
qed

text \<open>With the double-precision formula of the source in place of the exact share, the
  six rounded shares of a ledger of non-negative scores still add up to 100 with an error
  of at most 3.\<close>

lemma double_shares_sum_within_three:
  assumes nn: "list_all (\<lambda>(k, v). 0 \<le> v) scores"
    and t: "0 < sum_list (map snd scores)"
    and len: "length scores = 6"
  shows "97 \<le> sum_list (map (\<lambda>(k, v). confidence_formula v (sum_list (map snd scores))) scores)"
    and "sum_list (map (\<lambda>(k, v). confidence_formula v (sum_list (map snd scores))) scores) \<le> 103"
proof -
  let ?T = "sum_list (map snd scores)"
  let ?vals = "map snd scores"
  let ?y = "\<lambda>v. js_mul (js_div (rat_of_int v) (of_int ?T)) 100"
  let ?x = "\<lambda>v. rat_of_int v / of_int ?T * 100"
  let ?S = "sum_list (map (\<lambda>(k, v). confidence_formula v ?T) scores)"
  define lo :: rat where "lo = (1 - 1 / 2 ^ 53) * (1 - 1 / 2 ^ 53)"
  define hi :: rat where "hi = (1 + 1 / 2 ^ 53) * (1 + 1 / 2 ^ 53)"
  have S: "?S = sum_list (map Math_round (map ?y ?vals))"
    by (simp add: confidence_formula_def comp_def case_prod_unfold)
  have tne: "?T \<noteq> 0" using t by simp
  have sx: "sum_list (map ?x ?vals) = 100"
    using sum_shares [OF tne, of ?vals] tne by simp
  have vn: "\<And>v. v \<in> set ?vals \<Longrightarrow> 0 \<le> v"
    using nn by (auto simp: list_all_iff)
  have "sum_list (map (\<lambda>v. ?x v * lo) ?vals) \<le> sum_list (map ?y ?vals)"
  proof (rule sum_list_mono)
    fix v assume "v \<in> set ?vals"
    from double_share_bounds(1) [OF vn [OF this] t]
    show "?x v * lo \<le> ?y v" by (simp only: lo_def mult.assoc)
  qed
  moreover have "sum_list (map (\<lambda>v. ?x v * lo) ?vals) = sum_list (map ?x ?vals) * lo"
    by (rule sum_list_mult_const)
  ultimately have lo: "100 * lo \<le> sum_list (map ?y ?vals)" by (simp only: sx)
  have "sum_list (map ?y ?vals) \<le> sum_list (map (\<lambda>v. ?x v * hi) ?vals)"
  proof (rule sum_list_mono)
    fix v assume "v \<in> set ?vals"
    from double_share_bounds(2) [OF vn [OF this] t]
    show "?y v \<le> ?x v * hi" by (simp only: hi_def mult.assoc)
  qed
  moreover have "sum_list (map (\<lambda>v. ?x v * hi) ?vals) = sum_list (map ?x ?vals) * hi"
    by (rule sum_list_mult_const)
  ultimately have hi: "sum_list (map ?y ?vals) \<le> 100 * hi" by (simp only: sx)
  have ne: "map ?y ?vals \<noteq> []" using len by auto
  have l6: "rat_of_nat (length (map ?y ?vals)) = 6" using len by simp
  from sum_round_lower [OF ne] have "sum_list (map ?y ?vals) - 6 / 2 < rat_of_int ?S"
    unfolding S l6 .
  moreover have "96 \<le> 100 * lo - 6 / 2" by (simp add: lo_def)
  ultimately have "rat_of_int 96 < rat_of_int ?S" using lo by linarith
  then have "96 < ?S" by (simp only: of_int_less_iff)
  then show "97 \<le> ?S" by simp
  from sum_round_upper [of "map ?y ?vals"] have "rat_of_int ?S \<le> sum_list (map ?y ?vals) + 6 / 2"
    unfolding S l6 .
  moreover have "100 * hi + 6 / 2 < 104" by (simp add: hi_def)
  ultimately have "rat_of_int ?S < rat_of_int 104" using hi by linarith
  then have "?S < 104" by (simp only: of_int_less_iff)
  then show "?S \<le> 103" by simp
qed

section \<open>The claims about the ledger\<close>

text \<open>
  C3. In every ledger state in which every hypothesis has score 0, the query returns
  normally (not an error), and its result is the sentinel string for "unknown" with
  confidence exactly 0. The freshly constructed ledger of the engine is such a state.
\<close>

theorem getTopOS_all_zero_unknown:
  "list_all (\<lambda>(k, v). v = 0) scores \<longrightarrow>
     getTopOS scores = Inr \<lparr>os = unknown_os, confidence = 0\<rparr>"
  by (simp add: getTopOS_def total_sum_list sum_all_zero)

theorem getTopOS_all_zero_unknown_witness:
  "getTopOS OSScoreSystem_constructor = Inr \<lparr>os = unknown_os, confidence = 0\<rparr>"
proof -
  have h: "list_all (\<lambda>(k, v). v = 0) OSScoreSystem_constructor"
    by (simp add: OSScoreSystem_constructor_def zero_ledger_def hypotheses_def)
  from getTopOS_all_zero_unknown [of OSScoreSystem_constructor] h show ?thesis
    by blast
qed

text \<open>
  C2. In a ledger with non-negative scores whose maximal score m is positive, the query
  names the first entry, in the order of the ledger's keys, that holds m: every entry
  before it is strictly smaller, and entries after it may tie with it. The keys of the
  engine's ledger stand in the order macOS, Windows, Linux, iOS, iPadOS, Android. The query
  is a function of the ledger, so the answer is the same at every invocation.
\<close>

theorem getTopOS_first_of_tied:
  assumes pre: "list_all (\<lambda>(k', v). 0 \<le> v \<and> v < m) pre"
    and post: "list_all (\<lambda>(k', v). 0 \<le> v \<and> v \<le> m) post"
    and m: "0 < m"
  shows "getTopOS (pre @ (k, m) # post) =
           Inr \<lparr>os = k,
                confidence = confidence_formula m (sum_list (map snd (pre @ (k, m) # post)))\<rparr>"
proof -
  let ?scores = "pre @ (k, m) # post"
  have p1: "list_all (\<lambda>(k', v). v < m) pre" and p2: "list_all (\<lambda>(k', v). v \<le> m) post"
    and p3: "list_all (\<lambda>(k', v). v \<noteq> m) pre"
    using pre post by (auto simp: list_all_iff)
  have mx: "Math_max (map snd ?scores) = Some m"
    using Math_max_Max [of "map snd ?scores"] Max_first_match [OF p1 p2, of k] by simp
  have nn: "list_all (\<lambda>v. 0 \<le> v) (map snd ?scores)"
    using pre post m by (auto simp: list_all_iff)
  have "m \<le> sum_list (map snd ?scores)"
    by (rule sum_list_ge_member [OF nn]) simp
  with m have tot: "sum_list (map snd ?scores) \<noteq> 0" by linarith
  have fnd: "find (\<lambda>(_, score). score = m) ?scores = Some (k, m)"
    by (rule find_first_match [OF p3])
  show ?thesis
    unfolding getTopOS_alt using mx tot fnd m by simp
qed

theorem getTopOS_first_of_tied_witness:
  "getTopOS (apply_observations OSScoreSystem_constructor
               [([''Linux'', ''Windows''], 5), ([''macOS''], 2)])
     = Inr \<lparr>os = ''Windows'', confidence = 42\<rparr>"
proof -
  have st: "apply_observations OSScoreSystem_constructor
               [([''Linux'', ''Windows''], 5), ([''macOS''], 2)]
            = [(''macOS'', 2)] @ (''Windows'', 5) #
              [(''Linux'', 5), (''iOS'', 0), (''iPadOS'', 0), (''Android'', 0)]"
    by code_simp
  have h1: "list_all (\<lambda>(k', v). 0 \<le> v \<and> v < (5::int)) [(''macOS'', 2)]" by simp
  have h2: "list_all (\<lambda>(k', v). 0 \<le> v \<and> v \<le> (5::int))
              [(''Linux'', 5), (''iOS'', 0), (''iPadOS'', 0), (''Android'', 0)]" by simp
  have h3: "(0::int) < 5" by simp
  have c: "confidence_formula 5 12 = 42" by code_simp
  from getTopOS_first_of_tied [OF h1 h2 h3, of "''Windows''"] show ?thesis
    unfolding st by (simp add: c)
qed

text \<open>
  C10. On a ledger of six non-negative scores of which at least one is positive, the query
  returns a result whose confidence is at least 17: the maximum of six non-negative numbers
  is at least a sixth of their sum, and the two roundings of the double-precision product
  cannot bring it below 16.5.
\<close>

theorem getTopOS_confidence_at_least_17:
  assumes len: "length scores = 6"
    and nn: "list_all (\<lambda>(k, v). 0 \<le> v) scores"
    and pos: "list_ex (\<lambda>(k, v). 0 < v) scores"
  shows "\<exists>k c. getTopOS scores = Inr \<lparr>os = k, confidence = c\<rparr> \<and> 17 \<le> c"
proof -
  let ?vals = "map snd scores"
  let ?T = "sum_list ?vals"
  let ?M = "Max (set ?vals)"
  from pos have "\<exists>x \<in> set ?vals. 0 < x"
    by (force simp: list_ex_iff)
  then obtain x where x: "x \<in> set ?vals" "0 < x" by blast
  have nn': "list_all (\<lambda>v. 0 \<le> v) ?vals" using nn by (auto simp: list_all_iff)
  from sum_list_ge_member [OF nn' x(1)] x(2) have T: "0 < ?T" by linarith
  from len have ne: "?vals \<noteq> []" by auto
  from sum_list_le_length_Max [OF ne] len have TM: "?T \<le> 6 * ?M" by simp
  from getTopOS_positive_total [OF T] obtain k where
    k: "getTopOS scores = Inr \<lparr>os = k, confidence = confidence_formula ?M ?T\<rparr>" by blast
  have "17 \<le> confidence_formula ?M ?T"
    using T TM by (rule confidence_formula_sixth)
  with k show ?thesis by blast
qed

theorem getTopOS_confidence_at_least_17_witness:
  "\<exists>k c. getTopOS [(''macOS'', 1), (''Windows'', 1), (''Linux'', 1), (''iOS'', 1),
                     (''iPadOS'', 1), (''Android'', 1)]
            = Inr \<lparr>os = k, confidence = c\<rparr> \<and> 17 \<le> c"
proof -
  let ?L = "[(''macOS'', 1), (''Windows'', 1), (''Linux'', 1), (''iOS'', 1),
             (''iPadOS'', 1), (''Android'', 1::int)]"
  have h1: "length ?L = 6" by simp
  have h2: "list_all (\<lambda>(k, v). 0 \<le> v) ?L" by simp
  have h3: "list_ex (\<lambda>(k, v). 0 < v) ?L" by simp
  show ?thesis by (rule getTopOS_confidence_at_least_17 [OF h1 h2 h3])
qed

text \<open>
  C7. Two lists of observations that are permutations of each other (equal as multisets)
  leave any ledger, and so the zero ledger, with identical scores; the query then returns
  the identical top hypothesis and confidence.
\<close>

theorem apply_observations_order_irrelevant:
  assumes "mset obs = mset obs'"
  shows "apply_observations scores obs = apply_observations scores obs' \<and>
         getTopOS (apply_observations scores obs) = getTopOS (apply_observations scores obs')"
  using apply_observations_perm [OF assms, of scores] by simp

theorem apply_observations_order_irrelevant_witness:
  "apply_observations OSScoreSystem_constructor
     [([''macOS''], 6), ([''macOS'', ''iOS'', ''iPadOS''], 3), ([''iOS''], 8)]
   = apply_observations OSScoreSystem_constructor
     [([''iOS''], 8), ([''macOS''], 6), ([''macOS'', ''iOS'', ''iPadOS''], 3)]
   \<and> getTopOS (apply_observations OSScoreSystem_constructor
        [([''macOS''], 6), ([''macOS'', ''iOS'', ''iPadOS''], 3), ([''iOS''], 8)])
   = getTopOS (apply_observations OSScoreSystem_constructor
        [([''iOS''], 8), ([''macOS''], 6), ([''macOS'', ''iOS'', ''iPadOS''], 3)])"
proof -
  have h: "mset [([''macOS''], 6::int), ([''macOS'', ''iOS'', ''iPadOS''], 3), ([''iOS''], 8)]
         = mset [([''iOS''], 8), ([''macOS''], 6), ([''macOS'', ''iOS'', ''iPadOS''], 3)]"
    by simp
  show ?thesis
    by (rule apply_observations_order_irrelevant [OF h])
qed

text \<open>
  C4, as the code has it. \<^verbatim>\<open>addScore\<close> validates nothing and raises nothing: it keeps the keys
  and their order, and adds to the score of every key the weight once for each occurrence
  of the key among the targets. A target that is not a key is skipped while the other
  targets of the same call are still scored, and a weight that is zero or negative is
  added like any other.
\<close>

theorem addScore_adds_weight_per_occurrence:
  "map fst (addScore scores targets weight) = map fst scores \<and>
   map snd (addScore scores targets weight)
     = map (\<lambda>(k, v). v + weight * int (count_list targets k)) scores"
  by (simp add: addScore_count case_prod_unfold comp_def)

text \<open>
  The claim C4 as stated fails: an observation with the negative weight -3 lowers the score
  of macOS, and an observation that names the unknown hypothesis BeOS beside macOS still
  adds its weight to macOS.
\<close>

theorem addScore_invalid_observation_counterexample:
  "addScore OSScoreSystem_constructor [''macOS''] (- 3)
     = [(''macOS'', - 3), (''Windows'', 0), (''Linux'', 0), (''iOS'', 0), (''iPadOS'', 0),
        (''Android'', 0)]
   \<and> addScore OSScoreSystem_constructor [''macOS'', ''BeOS''] 5
     = [(''macOS'', 5), (''Windows'', 0), (''Linux'', 0), (''iOS'', 0), (''iPadOS'', 0),
        (''Android'', 0)]"
  by code_simp

lemma keys_after_observations:
  "map fst (apply_observations OSScoreSystem_constructor obs) = hypotheses"
  by (simp add: map_fst_apply_observations OSScoreSystem_constructor_def zero_ledger_def comp_def)

text \<open>
  C8, for the shares of \<^const>\<open>confidenceOf\<close>. After any sequence of observations on the
  six-hypothesis ledger, the rounded shares of the six hypotheses add up to 100 with an
  error of at most 3 (each of the six roundings moves its share by at most one half)
  whenever the total score is not 0, and every share is 0 when the total score is 0.
  (With the double-precision formula of the source the same bound holds on non-negative
  scores: lemma \<open>double_shares_sum_within_three\<close>.)
\<close>

theorem confidence_sum_within_three:
  "(sum_list (map snd (apply_observations OSScoreSystem_constructor obs)) \<noteq> 0 \<longrightarrow>
      97 \<le> sum_list (map (confidenceOf (apply_observations OSScoreSystem_constructor obs)) hypotheses)
      \<and> sum_list (map (confidenceOf (apply_observations OSScoreSystem_constructor obs)) hypotheses) \<le> 103)
   \<and> (sum_list (map snd (apply_observations OSScoreSystem_constructor obs)) = 0 \<longrightarrow>
        list_all (\<lambda>h. confidenceOf (apply_observations OSScoreSystem_constructor obs) h = 0)
          hypotheses)"
proof (intro conjI impI)
  let ?s = "apply_observations OSScoreSystem_constructor obs"
  let ?S = "sum_list (map (confidenceOf ?s) hypotheses)"
  assume t: "sum_list (map snd ?s) \<noteq> 0"
  have k: "map fst ?s = hypotheses" by (rule keys_after_observations)
  have d: "distinct (map fst ?s)" unfolding k by (simp add: hypotheses_def)
  have "length (map fst ?s) = 6" unfolding k by (simp add: hypotheses_def)
  then have len: "length ?s = 6" by simp
  from confidence_sum_general [OF d t]
  have "100 - rat_of_nat 6 / 2 < rat_of_int ?S" and "rat_of_int ?S \<le> 100 + rat_of_nat 6 / 2"
    unfolding k len by simp_all
  then have "rat_of_int 97 < rat_of_int ?S" and "rat_of_int ?S \<le> rat_of_int 103"
    by simp_all
  then have "97 < ?S" and "?S \<le> 103"
    by (simp_all only: of_int_less_iff of_int_le_iff)
  then show "97 \<le> ?S" and "?S \<le> 103" by simp_all
next
  assume "sum_list (map snd (apply_observations OSScoreSystem_constructor obs)) = 0"
  then show "list_all (\<lambda>h. confidenceOf (apply_observations OSScoreSystem_constructor obs) h = 0)
          hypotheses"
    by (simp add: confidenceOf_def total_sum_list list_all_iff)
qed

theorem confidence_sum_within_three_witness:
  "sum_list (map (confidenceOf (apply_observations OSScoreSystem_constructor
       [([''macOS''], 6), ([''macOS'', ''iOS'', ''iPadOS''], 3)])) hypotheses) \<le> 103
   \<and> 97 \<le> sum_list (map (confidenceOf (apply_observations OSScoreSystem_constructor
       [([''macOS''], 6), ([''macOS'', ''iOS'', ''iPadOS''], 3)])) hypotheses)
   \<and> list_all (\<lambda>h. confidenceOf (apply_observations OSScoreSystem_constructor []) h = 0)
        hypotheses"
proof -
  have t: "sum_list (map snd (apply_observations OSScoreSystem_constructor
       [([''macOS''], 6), ([''macOS'', ''iOS'', ''iPadOS''], 3)])) \<noteq> 0"
    by code_simp
  have z: "sum_list (map snd (apply_observations OSScoreSystem_constructor [])) = 0"
    by code_simp
  from confidence_sum_within_three [of "[([''macOS''], 6), ([''macOS'', ''iOS'', ''iPadOS''], 3)]"] t
       confidence_sum_within_three [of "[]"] z
  show ?thesis by blast
qed

text \<open>
  The claim C8 as stated fails: a touch screen (weight 2 for iOS, iPadOS, Android) and one
  desktop API (weight 2 for Windows, macOS, Linux) are two valid observations that leave
  every hypothesis with score 2 of a total 12; each share rounds to 17 (also by the
  double-precision formula of the source), and the six add up to 102.
\<close>

theorem confidence_sum_counterexample:
  "sum_list (map snd (apply_observations OSScoreSystem_constructor
       [([''iOS'', ''iPadOS'', ''Android''], 2), ([''Windows'', ''macOS'', ''Linux''], 2)])) = 12
   \<and> sum_list (map (confidenceOf (apply_observations OSScoreSystem_constructor
       [([''iOS'', ''iPadOS'', ''Android''], 2), ([''Windows'', ''macOS'', ''Linux''], 2)]))
         hypotheses) = 102
   \<and> confidence_formula 2 12 = 17"
  by code_simp

section \<open>The claims about a run\<close>

lemma seq_append:
  "seq (as @ bs) w = (case seq as w of (Some e, w') \<Rightarrow> (Some e, w') | (None, w') \<Rightarrow> seq bs w')"
  by (induction as arbitrary: w) (auto split: prod.splits option.splits)

lemma seq_throws:
  "seq before w = (None, w1) \<Longrightarrow> a w1 = (Some e, w2) \<Longrightarrow> seq (before @ a # later) w = (Some e, w2)"
  by (simp add: seq_append)

lemma collectAppleSignals_no_CSS:
  "CSS_supports h = None \<Longrightarrow> collectAppleSignals h w = (Some ReferenceError, w)"
  by (simp add: collectAppleSignals_def throw_act_def)

lemma scenario_in_doubles:
  "getTopOS (apply_observations (zero_ledger [''A'', ''B'', ''C''])
       [([''A''], 8), ([''A'', ''B''], 6), ([''C''], 2)])
     = Inr \<lparr>os = ''A'', confidence = 64\<rparr>"
  by code_simp

lemma desktop_first_run:
  "Engine_startDetection desktop_host
     \<lparr>scoreSystem = DeviceDetectionEngine_constructor, steps_el = Some []\<rparr> =
   (Inr \<lparr>os = ''Windows'', confidence = 47\<rparr>,
    \<lparr>scoreSystem =
       [(''macOS'', 6), (''Windows'', 18), (''Linux'', 12), (''iOS'', 0),
        (''iPadOS'', 0), (''Android'', 2)],
     steps_el =
       Some
        [\<lparr>step_ok = True, step_weight = Some 6,
            step_targets = [''Windows'', ''macOS'', ''Linux'']\<rparr>,
         \<lparr>step_ok = True, step_weight = Some 3,
            step_targets = [''Windows'', ''Linux'']\<rparr>,
         \<lparr>step_ok = True, step_weight = Some 2,
            step_targets = [''Android'', ''Windows'', ''Linux'']\<rparr>,
         \<lparr>step_ok = True, step_weight = Some 6,
            step_targets = [''Windows'']\<rparr>,
         \<lparr>step_ok = True, step_weight = None, step_targets = []\<rparr>]\<rparr>)"
  by code_simp

lemma desktop_second_run:
  "Engine_startDetection desktop_host
     \<lparr>scoreSystem =
        [(''macOS'', 6), (''Windows'', 18), (''Linux'', 12), (''iOS'', 0),
         (''iPadOS'', 0), (''Android'', 2)],
      steps_el = Some []\<rparr> =
   (Inr \<lparr>os = ''Windows'', confidence = 47\<rparr>,
    \<lparr>scoreSystem =
       [(''macOS'', 12), (''Windows'', 36), (''Linux'', 24), (''iOS'', 0),
        (''iPadOS'', 0), (''Android'', 4)],
     steps_el =
       Some
        [\<lparr>step_ok = True, step_weight = Some 6,
            step_targets = [''Windows'', ''macOS'', ''Linux'']\<rparr>,
         \<lparr>step_ok = True, step_weight = Some 3,
            step_targets = [''Windows'', ''Linux'']\<rparr>,
         \<lparr>step_ok = True, step_weight = Some 2,
            step_targets = [''Android'', ''Windows'', ''Linux'']\<rparr>,
         \<lparr>step_ok = True, step_weight = Some 6,
            step_targets = [''Windows'']\<rparr>,
         \<lparr>step_ok = True, step_weight = None, step_targets = []\<rparr>]\<rparr>)"
  by code_simp

lemma android_first_run:
  "Engine_startDetection android_host
     \<lparr>scoreSystem = DeviceDetectionEngine_constructor, steps_el = Some []\<rparr> =
   (Inr \<lparr>os = ''Android'', confidence = 57\<rparr>,
    \<lparr>scoreSystem =
       [(''macOS'', 3), (''Windows'', 2), (''Linux'', 2), (''iOS'', 5),
        (''iPadOS'', 5), (''Android'', 23)],
     steps_el =
       Some
        [\<lparr>step_ok = True, step_weight = Some 2,
            step_targets = [''iOS'', ''iPadOS'', ''Android'']\<rparr>,
         \<lparr>step_ok = True, step_weight = Some 5,
            step_targets = [''Android'']\<rparr>,
         \<lparr>step_ok = True, step_weight = Some 3,
            step_targets = [''macOS'', ''iOS'', ''iPadOS'']\<rparr>,
         \<lparr>step_ok = True, step_weight = Some 4,
            step_targets = [''Android'']\<rparr>,
         \<lparr>step_ok = True, step_weight = Some 2,
            step_targets = [''Android'', ''Windows'', ''Linux'']\<rparr>,
         \<lparr>step_ok = True, step_weight = Some 8,
            step_targets = [''Android'']\<rparr>,
         \<lparr>step_ok = True, step_weight = None, step_targets = []\<rparr>]\<rparr>)"
  by code_simp

lemma no_css_basic_step:
  "collectBasicSignals no_css_host w = (None, w)"
  by (simp add: collectBasicSignals_def no_css_host_def desktop_host_def when_act_def skip_act_def)

text \<open>
  C1. The code at the claim's failing input: the ledger macOS 3, Windows 2, Linux 2, iOS 5,
  iPadOS 5, Android 23 (total 40), which a first run on the Android phone host produces.
  The claim's value is round(100 * 23 / 40) = round(57.5) = 58. The source divides first:
  the double nearest to 23 / 40 lies below it, its product with 100 rounds to the double
  57.49999999999999, and \<^verbatim>\<open>Math.round\<close> of that is 57, which is what the query and the run
  report.
\<close>

theorem getTopOS_confidence_one_below:
  "js_div 23 40 = 2589569785738035 / 4503599627370496
   \<and> js_mul (js_div 23 40) 100 = 8092405580431359 / 140737488355328
   \<and> getTopOS [(''macOS'', 3), (''Windows'', 2), (''Linux'', 2), (''iOS'', 5), (''iPadOS'', 5),
                (''Android'', 23)]
       = Inr \<lparr>os = ''Android'', confidence = 57\<rparr>
   \<and> Math_round (100 * of_int 23 / of_int 40) = 58
   \<and> fst (Engine_startDetection android_host
            \<lparr>scoreSystem = DeviceDetectionEngine_constructor, steps_el = Some []\<rparr>)
       = Inr \<lparr>os = ''Android'', confidence = 57\<rparr>
   \<and> scoreSystem (snd (Engine_startDetection android_host
            \<lparr>scoreSystem = DeviceDetectionEngine_constructor, steps_el = Some []\<rparr>))
       = [(''macOS'', 3), (''Windows'', 2), (''Linux'', 2), (''iOS'', 5), (''iPadOS'', 5),
          (''Android'', 23)]"
proof (intro conjI)
  show "js_div 23 40 = 2589569785738035 / 4503599627370496"
    by code_simp
  show "js_mul (js_div 23 40) 100 = 8092405580431359 / 140737488355328"
    by code_simp
  show "getTopOS [(''macOS'', 3), (''Windows'', 2), (''Linux'', 2), (''iOS'', 5), (''iPadOS'', 5),
                (''Android'', 23)]
       = Inr \<lparr>os = ''Android'', confidence = 57\<rparr>"
    by code_simp
  show "Math_round (100 * of_int 23 / of_int 40) = 58"
    by code_simp
  show "fst (Engine_startDetection android_host
            \<lparr>scoreSystem = DeviceDetectionEngine_constructor, steps_el = Some []\<rparr>)
       = Inr \<lparr>os = ''Android'', confidence = 57\<rparr>"
    by (simp add: android_first_run)
  show "scoreSystem (snd (Engine_startDetection android_host
            \<lparr>scoreSystem = DeviceDetectionEngine_constructor, steps_el = Some []\<rparr>))
       = [(''macOS'', 3), (''Windows'', 2), (''Linux'', 2), (''iOS'', 5), (''iPadOS'', 5),
          (''Android'', 23)]"
    by (simp add: android_first_run)
qed

text \<open>
  C5, as the code has it. Only the probes that catch their own failures are isolated: a
  WebGL probe that failed (\<^verbatim>\<open>getWebGLInfo\<close> returned \<^verbatim>\<open>null\<close>) and media queries that threw
  leave the state as it was, and the run goes on. No step of \<^verbatim>\<open>startDetection\<close> is
  isolated: whichever of the nine steps throws, after the steps before it completed, the
  run ends with that error in the state reached at the throw, so that no later step is
  applied and no result is returned; the same holds when the snapshot step after the query
  throws on a page without the step list. Whatever error ends the engine's run, the
  application catches it, reports it and clears its flag.
\<close>

theorem startDetection_throwing_step_aborts:
  "(detection_steps h = before @ a # later \<and> seq before w = (None, w1) \<and> a w1 = (Some e, w2) \<longrightarrow>
      Engine_startDetection h w = (Inl e, w2))
   \<and> (seq (detection_steps h) w = (None, w1) \<and> steps_el w1 = None \<longrightarrow>
        Engine_startDetection h w = (Inl TypeError, w1))
   \<and> (\<not> isDetecting app0 \<and> Engine_startDetection h (clear_steps (engine app0)) = (Inl e, w2) \<longrightarrow>
        DeviceDetectorApp_startDetection h app0
          = (Inr (Error_failed e), \<lparr>isDetecting = False, engine = w2\<rparr>))
   \<and> (getWebGLInfo h = None \<longrightarrow> performWebGLDetection h w = (None, w))
   \<and> performMediaDetection (h\<lparr>hevc_decodingInfo := Inl e', vp9_decodingInfo := Inl e''\<rparr>) w
        = (None, w)"
proof (intro conjI impI)
  assume "detection_steps h = before @ a # later \<and> seq before w = (None, w1) \<and> a w1 = (Some e, w2)"
  then have "seq (detection_steps h) w = (Some e, w2)"
    by (simp add: seq_throws)
  then show "Engine_startDetection h w = (Inl e, w2)"
    by (simp add: Engine_startDetection_def)
next
  assume h: "seq (detection_steps h) w = (None, w1) \<and> steps_el w1 = None"
  from getTopOS_returns obtain r where "getTopOS (scoreSystem w1) = Inr r" by blast
  with h show "Engine_startDetection h w = (Inl TypeError, w1)"
    by (simp add: Engine_startDetection_def addSignalSnapshot_def addStep_def)
next
  assume "\<not> isDetecting app0 \<and> Engine_startDetection h (clear_steps (engine app0)) = (Inl e, w2)"
  then show "DeviceDetectorApp_startDetection h app0
          = (Inr (Error_failed e), \<lparr>isDetecting = False, engine = w2\<rparr>)"
    by (simp add: DeviceDetectorApp_startDetection_def)
next
  assume "getWebGLInfo h = None"
  then show "performWebGLDetection h w = (None, w)"
    by (simp add: performWebGLDetection_def skip_act_def)
next
  show "performMediaDetection (h\<lparr>hevc_decodingInfo := Inl e', vp9_decodingInfo := Inl e''\<rparr>) w
        = (None, w)"
    by (simp add: performMediaDetection_def checkHEVCSupport_def checkVP9Support_def
        when_act_def skip_act_def)
qed

text \<open>Three instances: on the host without \<^verbatim>\<open>CSS\<close> the second step throws and the run ends
  with an untouched ledger; on the desktop host and a page without the step list the
  fourth step has scored its weight 6 when its \<^verbatim>\<open>addStep\<close> throws, and the run ends there;
  on the host where no signal fires and a page without the step list all nine steps
  complete and the snapshot step throws.\<close>

theorem startDetection_throwing_step_aborts_witness:
  "Engine_startDetection no_css_host (engine (DeviceDetectorApp_constructor (Some [])))
     = (Inl ReferenceError, engine (DeviceDetectorApp_constructor (Some [])))
   \<and> DeviceDetectorApp_startDetection no_css_host (DeviceDetectorApp_constructor (Some []))
     = (Inr (Error_failed ReferenceError), DeviceDetectorApp_constructor (Some []))
   \<and> Engine_startDetection desktop_host (engine (DeviceDetectorApp_constructor None))
     = (Inl TypeError,
        \<lparr>scoreSystem = [(''macOS'', 6), (''Windows'', 6), (''Linux'', 6), (''iOS'', 0),
                        (''iPadOS'', 0), (''Android'', 0)],
         steps_el = None\<rparr>)
   \<and> Engine_startDetection silent_host (engine (DeviceDetectorApp_constructor None))
     = (Inl TypeError, engine (DeviceDetectorApp_constructor None))
   \<and> performWebGLDetection (desktop_host\<lparr>getWebGLInfo := None\<rparr>)
        (engine (DeviceDetectorApp_constructor (Some [])))
     = (None, engine (DeviceDetectorApp_constructor (Some [])))"
proof -
  let ?a = "DeviceDetectorApp_constructor (Some [])"
  let ?b = "DeviceDetectorApp_constructor None"
  let ?w2 = "\<lparr>scoreSystem = [(''macOS'', 6), (''Windows'', 6), (''Linux'', 6), (''iOS'', 0),
                        (''iPadOS'', 0), (''Android'', 0::int)],
         steps_el = None :: step list option\<rparr>"
  have s1: "detection_steps no_css_host
      = [collectBasicSignals no_css_host] @ collectAppleSignals no_css_host #
        [collectAndroidSignals no_css_host, collectDesktopSignals no_css_host,
         collectDisplaySignals no_css_host, performWebGLDetection no_css_host,
         performNFCDetection no_css_host, performMediaDetection no_css_host,
         performUserAgentAnalysis no_css_host]"
    by (simp add: detection_steps_def)
  have s2: "seq [collectBasicSignals no_css_host] (engine ?a) = (None, engine ?a)"
    by (simp add: no_css_basic_step)
  have s3: "collectAppleSignals no_css_host (engine ?a) = (Some ReferenceError, engine ?a)"
    by (simp add: collectAppleSignals_no_CSS no_css_host_def)
  have h3: "\<not> isDetecting ?a" by (simp add: DeviceDetectorApp_constructor_def)
  have h4: "getWebGLInfo (desktop_host\<lparr>getWebGLInfo := None\<rparr>) = None" by simp
  have cl: "clear_steps (engine ?a) = engine ?a"
    by (simp add: clear_steps_def DeviceDetectorApp_constructor_def)
  have t1: "detection_steps desktop_host
      = [collectBasicSignals desktop_host, collectAppleSignals desktop_host,
         collectAndroidSignals desktop_host] @ collectDesktopSignals desktop_host #
        [collectDisplaySignals desktop_host, performWebGLDetection desktop_host,
         performNFCDetection desktop_host, performMediaDetection desktop_host,
         performUserAgentAnalysis desktop_host]"
    by (simp add: detection_steps_def)
  have t2: "seq [collectBasicSignals desktop_host, collectAppleSignals desktop_host,
         collectAndroidSignals desktop_host] (engine ?b) = (None, engine ?b)"
    by (simp add: collectBasicSignals_def collectAppleSignals_def collectAndroidSignals_def
        desktop_host_def when_act_def skip_act_def)
  have t3: "collectDesktopSignals desktop_host (engine ?b) = (Some TypeError, ?w2)"
    by code_simp
  from startDetection_throwing_step_aborts [of no_css_host _ _ _ "engine ?a" "engine ?a"
         ReferenceError "engine ?a"] s1 s2 s3
  have a: "Engine_startDetection no_css_host (engine ?a) = (Inl ReferenceError, engine ?a)"
    by blast
  from startDetection_throwing_step_aborts
         [of no_css_host _ _ _ _ _ ReferenceError "engine ?a" ?a] h3 a cl
  have b: "DeviceDetectorApp_startDetection no_css_host ?a
     = (Inr (Error_failed ReferenceError), \<lparr>isDetecting = False, engine = engine ?a\<rparr>)"
    by simp
  have b': "\<lparr>isDetecting = False, engine = engine ?a\<rparr> = ?a"
    by (simp add: DeviceDetectorApp_constructor_def)
  from startDetection_throwing_step_aborts [of desktop_host _ _ _ "engine ?b" "engine ?b"
         TypeError ?w2] t1 t2 t3
  have c: "Engine_startDetection desktop_host (engine ?b) = (Inl TypeError, ?w2)"
    by blast
  have u1: "seq (detection_steps silent_host) (engine ?b) = (None, engine ?b)"
    by code_simp
  have u2: "steps_el (engine ?b) = None"
    by (simp add: DeviceDetectorApp_constructor_def)
  from startDetection_throwing_step_aborts [of silent_host _ _ _ "engine ?b" "engine ?b"] u1 u2
  have c': "Engine_startDetection silent_host (engine ?b) = (Inl TypeError, engine ?b)"
    by blast
  from startDetection_throwing_step_aborts
         [of "desktop_host\<lparr>getWebGLInfo := None\<rparr>" _ _ _ "engine ?a"] h4
  have d: "performWebGLDetection (desktop_host\<lparr>getWebGLInfo := None\<rparr>) (engine ?a)
     = (None, engine ?a)"
    by blast
  from a b c c' d show ?thesis unfolding b' by blast
qed

text \<open>
  The claim C5 as stated fails. On the desktop host \<^verbatim>\<open>collectAppleSignals\<close> scores nothing,
  so a run on it gives what a run without that source gives: Windows with confidence 47.
  On the host that differs only in lacking \<^verbatim>\<open>CSS\<close>, where that one source throws, the run
  aborts with the ReferenceError, no result is returned, and the ledger is still zero: the
  later sources were not applied.
\<close>

theorem startDetection_isolation_counterexample:
  "fst (Engine_startDetection desktop_host
          \<lparr>scoreSystem = DeviceDetectionEngine_constructor, steps_el = Some []\<rparr>)
     = Inr \<lparr>os = ''Windows'', confidence = 47\<rparr>
   \<and> Engine_startDetection no_css_host
          \<lparr>scoreSystem = DeviceDetectionEngine_constructor, steps_el = Some []\<rparr>
     = (Inl ReferenceError,
        \<lparr>scoreSystem = DeviceDetectionEngine_constructor, steps_el = Some []\<rparr>)"
proof -
  have c: "CSS_supports no_css_host = None" by (simp add: no_css_host_def)
  have "Engine_startDetection no_css_host
          \<lparr>scoreSystem = DeviceDetectionEngine_constructor, steps_el = Some []\<rparr>
        = (Inl ReferenceError,
           \<lparr>scoreSystem = DeviceDetectionEngine_constructor, steps_el = Some []\<rparr>)"
    by (simp add: Engine_startDetection_def detection_steps_def no_css_basic_step
        collectAppleSignals_no_CSS [OF c])
  then show ?thesis by (simp add: desktop_first_run)
qed

text \<open>
  C6. The code at the claim's failing input: the application is constructed on a page
  with an empty step list, detection runs on the desktop host, and
  \<^verbatim>\<open>restartDetection\<close> runs it once more on the same host. The first run leaves the scores
  6, 18, 12, 0, 0, 2. The second run clears the step list, which afterwards holds the
  five steps of one run again, but it starts from the scores of the first run and leaves
  12, 36, 24, 0, 0, 4: twice what a run from a zero ledger produces.
\<close>

theorem restartDetection_scores_carried_over:
  "scoreSystem (engine (snd (DeviceDetectorApp_startDetection desktop_host
       (DeviceDetectorApp_constructor (Some [])))))
     = [(''macOS'', 6), (''Windows'', 18), (''Linux'', 12), (''iOS'', 0), (''iPadOS'', 0),
        (''Android'', 2)]
   \<and> scoreSystem (engine (snd (DeviceDetectorApp_restartDetection desktop_host
       (snd (DeviceDetectorApp_startDetection desktop_host
          (DeviceDetectorApp_constructor (Some [])))))))
     = [(''macOS'', 12), (''Windows'', 36), (''Linux'', 24), (''iOS'', 0), (''iPadOS'', 0),
        (''Android'', 4)]
   \<and> steps_el (engine (snd (DeviceDetectorApp_restartDetection desktop_host
       (snd (DeviceDetectorApp_startDetection desktop_host
          (DeviceDetectorApp_constructor (Some [])))))))
     = steps_el (engine (snd (DeviceDetectorApp_startDetection desktop_host
       (DeviceDetectorApp_constructor (Some [])))))"
  by (simp add: DeviceDetectorApp_restartDetection_def DeviceDetectorApp_startDetection_def
      DeviceDetectorApp_constructor_def clear_steps_def desktop_first_run desktop_second_run)

text \<open>
  C9, as the code has it. When \<^verbatim>\<open>isDetecting\<close> is set, \<^verbatim>\<open>startDetection\<close> of the application
  writes a warning and returns: its promise resolves, no error is raised, and the flag,
  the engine's scores and the step list are exactly as they were, so the run that set the
  flag is not disturbed. (The engine's own \<^verbatim>\<open>startDetection\<close> has no such guard.)
\<close>

theorem startDetection_while_detecting_returns:
  "isDetecting a \<longrightarrow> DeviceDetectorApp_startDetection h a = (Inr Warn_already_detecting, a)"
  by (simp add: DeviceDetectorApp_startDetection_def)

theorem startDetection_while_detecting_returns_witness:
  "DeviceDetectorApp_startDetection no_css_host
     \<lparr>isDetecting = True,
      engine = \<lparr>scoreSystem = addScore DeviceDetectionEngine_constructor [''macOS''] 6,
                steps_el = Some []\<rparr>\<rparr>
   = (Inr Warn_already_detecting,
      \<lparr>isDetecting = True,
       engine = \<lparr>scoreSystem = addScore DeviceDetectionEngine_constructor [''macOS''] 6,
                 steps_el = Some []\<rparr>\<rparr>)"
proof -
  have h: "isDetecting \<lparr>isDetecting = True,
      engine = \<lparr>scoreSystem = addScore DeviceDetectionEngine_constructor [''macOS''] 6,
                steps_el = Some []\<rparr>\<rparr>"
    by simp
  from startDetection_while_detecting_returns [of _ no_css_host] h show ?thesis
    by blast
qed

text \<open>
  The claim C9 as stated fails: called on the desktop host while the flag is set, the
  application's \<^verbatim>\<open>startDetection\<close> resolves with the warning; nothing is raised to the
  caller.
\<close>

theorem startDetection_already_running_counterexample:
  "fst (DeviceDetectorApp_startDetection desktop_host
          ((DeviceDetectorApp_constructor (Some []))\<lparr>isDetecting := True\<rparr>))
     = Inr Warn_already_detecting"
  by (simp add: DeviceDetectorApp_startDetection_def)

end
